theory Spec2Isabelle
  imports Main "HOL-Library.Word"
begin

section \<open>Messages, errors and channels\<close>

text \<open>
  The package \<^verbatim>\<open>netqueue\<close> (\<^verbatim>\<open>src/netqueue/queue.go\<close>) bridges Go channels and a
  byte stream in gob format. A \<^verbatim>\<open>Message\<close> is a struct of an action and its arguments.
\<close>

type_synonym byte = "8 word"

record Message =
  Action :: string
  Args :: "string list"

text \<open>
  Go's \<^verbatim>\<open>error\<close> values that occur here: the sentinel \<^verbatim>\<open>io.EOF\<close>, the sentinel
  \<^verbatim>\<open>io.ErrUnexpectedEOF\<close>, an error of the gob package (identified by its text) and an
  error returned by the \<^verbatim>\<open>Write\<close> method of the sink.
\<close>

datatype error = EOF | ErrUnexpectedEOF | GobError string | WriteError string

text \<open>
  A buffered channel as \<^verbatim>\<open>make(chan T, n)\<close> creates it: the queued items, the fixed
  capacity and the closed flag.
\<close>

record 'a chan =
  buf :: "'a list"
  cap :: nat
  closed :: bool

definition make_chan :: "nat \<Rightarrow> 'a chan" where
  "make_chan n = \<lparr>buf = [], cap = n, closed = False\<rparr>"

text \<open>\<^verbatim>\<open>const ChanSize = 32\<close>\<close>

definition ChanSize :: nat where
  "ChanSize = 32"

text \<open>
  The goroutine a constructor starts, with the sink or the source it works on:
  \<^verbatim>\<open>go write(w, msgChan, errChan)\<close> and \<^verbatim>\<open>go read(r, msgCh, errCh)\<close>. What the goroutines
  do is the subject of the section on the workers.
\<close>

datatype 'w write_goroutine = go_write 'w

datatype 'r read_goroutine = go_read 'r

text \<open>
  \<^verbatim>\<open>ChannelFromWriter\<close> and \<^verbatim>\<open>ChannelFromReader\<close>: both make a message channel and an
  error channel of capacity \<^verbatim>\<open>ChanSize\<close>, start the worker and return the two channels.
\<close>

definition ChannelFromWriter :: "'w \<Rightarrow> Message chan \<times> error chan \<times> 'w write_goroutine" where
  "ChannelFromWriter w =
     (let msgChan = make_chan ChanSize;
          errChan = make_chan ChanSize
      in (msgChan, errChan, go_write w))"

definition ChannelFromReader :: "'r \<Rightarrow> Message chan \<times> error chan \<times> 'r read_goroutine" where
  "ChannelFromReader r =
     (let msgCh = make_chan ChanSize;
          errCh = make_chan ChanSize
      in (msgCh, errCh, go_read r))"

section \<open>The gob stream\<close>

text \<open>
  The workers serialize with Go's standard package \<^verbatim>\<open>encoding/gob\<close>, which is not part of
  the repository. This section models the stream protocol of that package, as its
  documentation describes the encoding and as its encoder and decoder behave, for the one
  type the workers transmit:
  \<^item> an unsigned integer below 128 is one byte; otherwise a byte holding the negated byte
    count is followed by the big-endian bytes of the value (at most eight);
  \<^item> a signed integer \<open>i\<close> is the unsigned integer \<open>2 * i\<close>, or \<open>2 * (-i - 1) + 1\<close> when
    \<open>i\<close> is negative;
  \<^item> a string is its length followed by its bytes, a slice its length followed by its
    elements;
  \<^item> a struct is a sequence of (field delta, value) pairs closed by a zero delta; fields
    holding the zero value of their type are not sent;
  \<^item> the stream is a sequence of messages, each prefixed by its length; a message starts
    with a type id; a negative id \<open>-n\<close> is followed by the definition of type \<open>n\<close>, a
    positive id by a value of that type;
  \<^item> an encoder sends the definition of a type once, before the first value that needs
    it; a decoder keeps the definitions it has received and refuses a second definition
    of an id (\<^verbatim>\<open>gob: duplicate type received\<close>; older releases report the same
    condition as \<^verbatim>\<open>extra data in buffer\<close>).
  The bytes of the model follow the encoding; the type ids, which a Go process assigns at
  run time, are fixed numbers here.
\<close>

definition string_bytes :: "string \<Rightarrow> byte list" where
  "string_bytes s = map (\<lambda>c. of_nat (of_char c)) s"

definition bytes_string :: "byte list \<Rightarrow> string" where
  "bytes_string bs = map (\<lambda>b. char_of (unat b)) bs"

fun be_bytes :: "nat \<Rightarrow> byte list" where
  "be_bytes n = (if n = 0 then [] else be_bytes (n div 256) @ [of_nat (n mod 256)])"

declare be_bytes.simps [simp del]

definition be_val :: "byte list \<Rightarrow> nat" where
  "be_val bs = foldl (\<lambda>a b. a * 256 + unat b) 0 bs"

definition uint64Size :: nat where
  "uint64Size = 8"

definition encodeUint :: "nat \<Rightarrow> byte list" where
  "encodeUint x =
     (if x \<le> 127 then [of_nat x]
      else (let bs = be_bytes x in of_nat (256 - length bs) # bs))"

definition encodeInt :: "int \<Rightarrow> byte list" where
  "encodeInt i = encodeUint (if i < 0 then 2 * nat (- i - 1) + 1 else 2 * nat i)"

definition errBadUint :: error where
  "errBadUint = GobError ''gob: encoded unsigned integer out of range''"

definition decodeUint :: "byte list \<Rightarrow> error + (nat \<times> byte list)" where
  "decodeUint bs =
     (case bs of
        [] \<Rightarrow> Inl EOF
      | b # rest \<Rightarrow>
          if b \<le> 0x7f then Inr (unat b, rest)
          else (let n = 256 - unat b in
                if n > uint64Size then Inl errBadUint
                else if length rest < n then Inl ErrUnexpectedEOF
                else Inr (be_val (take n rest), drop n rest)))"

definition decodeInt :: "byte list \<Rightarrow> error + (int \<times> byte list)" where
  "decodeInt bs =
     (case decodeUint bs of
        Inl e \<Rightarrow> Inl e
      | Inr (x, rest) \<Rightarrow>
          Inr (if odd x then - int (x div 2) - 1 else int (x div 2), rest))"

definition encodeString :: "string \<Rightarrow> byte list" where
  "encodeString s = encodeUint (length s) @ string_bytes s"

definition decodeString :: "byte list \<Rightarrow> error + (string \<times> byte list)" where
  "decodeString bs =
     (case decodeUint bs of
        Inl e \<Rightarrow> Inl e
      | Inr (n, rest) \<Rightarrow>
          if length rest < n then Inl (GobError ''gob: bad string length'')
          else Inr (bytes_string (take n rest), drop n rest))"

definition encodeSlice :: "string list \<Rightarrow> byte list" where
  "encodeSlice xs = encodeUint (length xs) @ concat (map encodeString xs)"

fun decodeElems :: "nat \<Rightarrow> byte list \<Rightarrow> error + (string list \<times> byte list)" where
  "decodeElems 0 bs = Inr ([], bs)"
| "decodeElems (Suc n) bs =
     (case decodeString bs of
        Inl e \<Rightarrow> Inl e
      | Inr (s, rest) \<Rightarrow>
          (case decodeElems n rest of
             Inl e \<Rightarrow> Inl e
           | Inr (ss, rest') \<Rightarrow> Inr (s # ss, rest')))"

definition decodeSlice :: "byte list \<Rightarrow> error + (string list \<times> byte list)" where
  "decodeSlice bs =
     (case decodeUint bs of
        Inl e \<Rightarrow> Inl e
      | Inr (n, rest) \<Rightarrow> decodeElems n rest)"

text \<open>
  A \<^verbatim>\<open>Message\<close> value: field 0 is \<^verbatim>\<open>Action\<close>, field 1 is \<^verbatim>\<open>Args\<close>; an empty string
  and an empty slice are zero values and are left out.
\<close>

definition encodeStruct :: "Message \<Rightarrow> byte list" where
  "encodeStruct m =
     (if Action m = [] then [] else encodeUint 1 @ encodeString (Action m)) @
     (if Args m = [] then []
      else encodeUint (if Action m = [] then 2 else 1) @ encodeSlice (Args m)) @
     encodeUint 0"

function decodeStruct :: "int \<Rightarrow> Message \<Rightarrow> byte list \<Rightarrow> error + (Message \<times> byte list)" where
  "decodeStruct fieldnum m bs =
     (case decodeUint bs of
        Inl e \<Rightarrow> Inl e
      | Inr (delta, rest) \<Rightarrow>
          if delta = 0 then Inr (m, rest)
          else (let fieldnum' = fieldnum + int delta in
                if fieldnum' = 0 then
                  (case decodeString rest of
                     Inl e \<Rightarrow> Inl e
                   | Inr (s, rest') \<Rightarrow> decodeStruct fieldnum' (m\<lparr>Action := s\<rparr>) rest')
                else if fieldnum' = 1 then
                  (case decodeSlice rest of
                     Inl e \<Rightarrow> Inl e
                   | Inr (ss, rest') \<Rightarrow> decodeStruct fieldnum' (m\<lparr>Args := ss\<rparr>) rest')
                else Inl (GobError ''gob: field numbers out of bounds'')))"
  by pat_completeness auto
termination
  by (relation "measure (\<lambda>(fieldnum, m, bs). nat (2 - fieldnum))") auto

declare decodeStruct.simps [simp del]

text \<open>A message of the stream: the length of the payload, then the payload.\<close>

definition frame :: "byte list \<Rightarrow> byte list" where
  "frame payload = encodeUint (length payload) @ payload"

text \<open>
  Type ids: the ids below \<^verbatim>\<open>firstUserId\<close> are the package's own (a string is type 6); the
  types of a program get the ids from there on, one per type and process, so every encoder
  of a process sends the same id for \<^verbatim>\<open>Message\<close> and for \<^verbatim>\<open>[]string\<close>.
\<close>

definition firstUserId :: int where
  "firstUserId = 64"

definition tString :: int where
  "tString = 6"

definition MessageId :: int where
  "MessageId = 65"

definition StringSliceId :: int where
  "StringSliceId = 66"

text \<open>The definitions of the two types, as values of the package's \<^verbatim>\<open>wireType\<close> struct.\<close>

definition commonType :: "string \<Rightarrow> int \<Rightarrow> byte list" where
  "commonType name ident =
     encodeUint 1 @ encodeString name @ encodeUint 1 @ encodeInt ident @ encodeUint 0"

definition fieldType :: "string \<Rightarrow> int \<Rightarrow> byte list" where
  "fieldType name ident =
     encodeUint 1 @ encodeString name @ encodeUint 1 @ encodeInt ident @ encodeUint 0"

definition messageWire :: "byte list" where
  "messageWire =
     encodeUint 3 @
       encodeUint 1 @ commonType ''Message'' MessageId @
       encodeUint 1 @ encodeUint 2 @
         fieldType ''Action'' tString @ fieldType ''Args'' StringSliceId @
       encodeUint 0 @
     encodeUint 0"

definition sliceWire :: "byte list" where
  "sliceWire =
     encodeUint 2 @
       encodeUint 1 @ commonType ''[]string'' StringSliceId @
       encodeUint 1 @ encodeInt tString @
       encodeUint 0 @
     encodeUint 0"

definition typeMessage :: "int \<Rightarrow> byte list \<Rightarrow> byte list" where
  "typeMessage ident wire = encodeInt (- ident) @ wire"

definition valueMessage :: "Message \<Rightarrow> byte list" where
  "valueMessage m = encodeInt MessageId @ encodeStruct m"

text \<open>
  What an encoder sends before the first value: the definition of \<^verbatim>\<open>Message\<close>, then the
  definition of \<^verbatim>\<open>[]string\<close>, the type of its field \<^verbatim>\<open>Args\<close>.
\<close>

definition typeDefinitions :: "byte list" where
  "typeDefinitions =
     frame (typeMessage MessageId messageWire) @ frame (typeMessage StringSliceId sliceWire)"

text \<open>The type definitions a decoder holds once it has received both.\<close>

definition knownTypes :: "(int \<times> byte list) list" where
  "knownTypes = [(StringSliceId, sliceWire), (MessageId, messageWire)]"

text \<open>
  A message fits the stream when its payload is shorter than \<open>2 ^ 64\<close> bytes, the largest
  length a message prefix can carry. No Go program holds a larger value.
\<close>

definition fits :: "Message \<Rightarrow> bool" where
  "fits m = (length (valueMessage m) < 2 ^ 64)"

subsection \<open>The sink and the encoder\<close>

text \<open>
  An \<^verbatim>\<open>io.Writer\<close> is an interface: any state \<open>'w\<close> with a \<^verbatim>\<open>Write\<close> method that
  takes the bytes and returns the error, if any, and the new state.
\<close>

type_synonym 'w Writer = "'w \<Rightarrow> byte list \<Rightarrow> error option \<times> 'w"

text \<open>\<^verbatim>\<open>bytes.Buffer\<close>: a write appends and never fails.\<close>

definition buffer_Write :: "byte list Writer" where
  "buffer_Write b p = (None, b @ p)"

text \<open>
  A sink that fails on one call: the state counts the calls of \<^verbatim>\<open>Write\<close>; call number
  \<open>k\<close> (from 0) returns the error \<open>e\<close> and writes nothing, every other call appends.
\<close>

definition failing_Write :: "nat \<Rightarrow> error \<Rightarrow> (nat \<times> byte list) Writer" where
  "failing_Write k e s p =
     (case s of (n, out) \<Rightarrow>
        if n = k then (Some e, (Suc n, out)) else (None, (Suc n, out @ p)))"

text \<open>
  \<^verbatim>\<open>gob.Encoder\<close>: the sink, the ids of the types already sent and the error of the
  current call. \<^verbatim>\<open>Encode\<close> sends the definitions of \<^verbatim>\<open>Message\<close> and of \<^verbatim>\<open>[]string\<close>
  unless it has sent them, then the value, each as one message in one \<^verbatim>\<open>Write\<close>; it stops
  at the first write that fails and returns its error.
\<close>

record 'w Encoder =
  enc_w :: 'w
  sent :: "int list"
  enc_err :: "error option"

definition NewEncoder :: "'w \<Rightarrow> 'w Encoder" where
  "NewEncoder w = \<lparr>enc_w = w, sent = [], enc_err = None\<rparr>"

definition writeMessage :: "'w Writer \<Rightarrow> 'w Encoder \<Rightarrow> byte list \<Rightarrow> 'w Encoder" where
  "writeMessage W enc payload =
     (case W (enc_w enc) (frame payload) of
        (err, w') \<Rightarrow> enc\<lparr>enc_w := w', enc_err := err\<rparr>)"

definition sendType :: "'w Writer \<Rightarrow> 'w Encoder \<Rightarrow> int \<Rightarrow> byte list \<Rightarrow> 'w Encoder" where
  "sendType W enc ident wire =
     (if enc_err enc \<noteq> None \<or> ident \<in> set (sent enc) then enc
      else (let enc' = writeMessage W enc (typeMessage ident wire)
            in if enc_err enc' \<noteq> None then enc' else enc'\<lparr>sent := ident # sent enc'\<rparr>))"

definition Encode :: "'w Writer \<Rightarrow> 'w Encoder \<Rightarrow> Message \<Rightarrow> error option \<times> 'w Encoder" where
  "Encode W enc msg =
     (let enc0 = enc\<lparr>enc_err := None\<rparr>;
          enc1 = sendType W enc0 MessageId messageWire;
          enc2 = sendType W enc1 StringSliceId sliceWire;
          enc3 = (if enc_err enc2 = None then writeMessage W enc2 (valueMessage msg) else enc2)
      in (enc_err enc3, enc3))"

subsection \<open>The source and the decoder\<close>

text \<open>
  The source is the sequence of bytes an \<^verbatim>\<open>io.Reader\<close> yields before it reports a clean
  end of stream. \<^verbatim>\<open>gob.Decoder\<close>: the unread bytes and the type definitions received so
  far. \<^verbatim>\<open>Decode\<close> reads messages until one carries a value: a definition of a new id is
  stored, a definition of a known id is an error, and the end of the stream is \<^verbatim>\<open>io.EOF\<close>
  only when it comes before the first message of the call.
\<close>

record Decoder =
  dec_r :: "byte list"
  wireType :: "(int \<times> byte list) list"

definition NewDecoder :: "byte list \<Rightarrow> Decoder" where
  "NewDecoder r = \<lparr>dec_r = r, wireType = []\<rparr>"

definition recvMessage :: "byte list \<Rightarrow> error + (byte list \<times> byte list)" where
  "recvMessage r =
     (case decodeUint r of
        Inl e \<Rightarrow> Inl e
      | Inr (nbytes, rest) \<Rightarrow>
          if length rest < nbytes then Inl ErrUnexpectedEOF
          else Inr (take nbytes rest, drop nbytes rest))"

definition decodeValue :: "(int \<times> byte list) list \<Rightarrow> int \<Rightarrow> byte list \<Rightarrow> error + Message" where
  "decodeValue wt ident body =
     (if map_of wt ident = Some messageWire \<and> map_of wt StringSliceId = Some sliceWire then
        (case decodeStruct (- 1) \<lparr>Action = [], Args = []\<rparr> body of
           Inl e \<Rightarrow> Inl (if e = EOF then ErrUnexpectedEOF else e)
         | Inr (m, rest) \<Rightarrow>
             if rest = [] then Inr m else Inl (GobError ''gob: extra data in buffer''))
      else Inl (GobError ''gob: type mismatch''))"

lemma decodeUint_shorter: "decodeUint bs = Inr (n, rest) \<Longrightarrow> length rest < length bs"
  by (auto simp: decodeUint_def Let_def split: list.splits if_splits)

lemma recvMessage_shorter: "recvMessage r = Inr (payload, r') \<Longrightarrow> length r' < length r"
  by (auto simp: recvMessage_def split: sum.splits if_splits dest!: decodeUint_shorter)

function Decode_loop :: "bool \<Rightarrow> Decoder \<Rightarrow> (error + Message) \<times> Decoder" where
  "Decode_loop firstMessage dec =
     (case recvMessage (dec_r dec) of
        Inl e \<Rightarrow> (Inl (if \<not> firstMessage \<and> e = EOF then ErrUnexpectedEOF else e), dec)
      | Inr (payload, r') \<Rightarrow>
          (case decodeInt payload of
             Inl e \<Rightarrow> (Inl e, dec\<lparr>dec_r := r'\<rparr>)
           | Inr (ident, body) \<Rightarrow>
               if ident \<ge> 0 then (decodeValue (wireType dec) ident body, dec\<lparr>dec_r := r'\<rparr>)
               else if - ident < firstUserId \<or> map_of (wireType dec) (- ident) \<noteq> None then
                 (Inl (GobError ''gob: duplicate type received''), dec\<lparr>dec_r := r'\<rparr>)
               else Decode_loop False
                      (dec\<lparr>dec_r := r', wireType := (- ident, body) # wireType dec\<rparr>)))"
  by pat_completeness auto
termination
  by (relation "measure (\<lambda>(firstMessage, dec). length (dec_r dec))")
     (auto dest: recvMessage_shorter)

declare Decode_loop.simps [simp del]

definition Decode :: "Decoder \<Rightarrow> (error + Message) \<times> Decoder" where
  "Decode dec = Decode_loop True dec"

lemma Decode_loop_shorter:
  "Decode_loop f dec = (Inr m, dec') \<Longrightarrow> length (dec_r dec') < length (dec_r dec)"
proof (induction f dec rule: Decode_loop.induct)
  case (1 firstMessage dec)
  from "1.prems" obtain payload r' where rm: "recvMessage (dec_r dec) = Inr (payload, r')"
    by (subst (asm) Decode_loop.simps) (auto split: sum.splits)
  then have sh: "length r' < length (dec_r dec)" by (rule recvMessage_shorter)
  from "1.prems" rm obtain ident body where di: "decodeInt payload = Inr (ident, body)"
    by (subst (asm) Decode_loop.simps) (auto split: sum.splits)
  show ?case
  proof (cases "ident \<ge> 0")
    case True
    with "1.prems" rm di have "dec' = dec\<lparr>dec_r := r'\<rparr>"
      by (subst (asm) Decode_loop.simps) simp
    with sh show ?thesis by simp
  next
    case False
    note neg = this
    show ?thesis
    proof (cases "- ident < firstUserId \<or> map_of (wireType dec) (- ident) \<noteq> None")
      case True
      with "1.prems" rm di neg show ?thesis
        by (subst (asm) Decode_loop.simps) simp
    next
      case False
      let ?d = "dec\<lparr>dec_r := r', wireType := (- ident, body) # wireType dec\<rparr>"
      from "1.prems" rm di neg False have "Decode_loop False ?d = (Inr m, dec')"
        by (subst (asm) Decode_loop.simps) simp
      with "1.IH"[OF rm refl di refl neg False] have "length (dec_r dec') < length (dec_r ?d)"
        by simp
      with sh show ?thesis by simp
    qed
  qed
qed

section \<open>The workers\<close>

text \<open>
  A worker is a goroutine between channels. Its model is the sequence of channel
  operations it performs, in program order: for \<^verbatim>\<open>write\<close>, the messages it receives from
  \<^verbatim>\<open>ch\<close> until the channel is closed and drained, the errors it sends and the close of
  \<^verbatim>\<open>errCh\<close>; for \<^verbatim>\<open>read\<close>, the messages and the errors it sends and the two closes. An
  operation that blocks is taken to complete: the peer of the channel eventually sends,
  receives or closes.

  \<open>Recv m\<close>: the worker took \<open>m\<close> from its message channel (and then calls \<^verbatim>\<open>Encode\<close> on
  it); \<open>SendMsg m\<close> and \<open>SendErr e\<close>: it sent \<open>m\<close> on its message channel, \<open>e\<close> on its
  error channel; \<open>CloseMsgCh\<close> and \<open>CloseErrCh\<close>: it closed the channel.
\<close>

datatype event = Recv Message | SendMsg Message | SendErr error | CloseMsgCh | CloseErrCh


fun delivered :: "event list \<Rightarrow> Message list" where
  "delivered [] = []"
| "delivered (SendMsg m # evs) = m # delivered evs"
| "delivered (ev # evs) = delivered evs"

fun errors :: "event list \<Rightarrow> error list" where
  "errors [] = []"
| "errors (SendErr e # evs) = e # errors evs"
| "errors (ev # evs) = errors evs"

text \<open>
  The loop of \<^verbatim>\<open>write\<close> (\<^verbatim>\<open>write\<close> is a reserved word of Isabelle, hence the suffix):
  \<^verbatim>\<open>
  for msg := range ch {
      encoder := gob.NewEncoder(w)
      if err := encoder.Encode(msg); err != nil {
          errCh <- err
      }
  }
  \<close>
  The list is what \<^verbatim>\<open>range ch\<close> yields: the messages sent on the channel before it is
  closed. The sink \<open>w\<close> is shared with each encoder, so its state after \<^verbatim>\<open>Encode\<close> is the
  state the next encoder starts from.
\<close>

fun write_loop :: "'w Writer \<Rightarrow> 'w \<Rightarrow> Message list \<Rightarrow> event list \<times> 'w" where
  "write_loop W w [] = ([], w)"
| "write_loop W w (msg # ch) =
     (let encoder = NewEncoder w in
      case Encode W encoder msg of
        (err, encoder') \<Rightarrow>
          (case write_loop W (enc_w encoder') ch of
             (evs, w') \<Rightarrow>
               (Recv msg # (case err of None \<Rightarrow> [] | Some e \<Rightarrow> [SendErr e]) @ evs, w')))"

text \<open>\<^verbatim>\<open>write\<close>: the loop, then the deferred \<^verbatim>\<open>close(errCh)\<close>.\<close>

definition write_worker :: "'w Writer \<Rightarrow> 'w \<Rightarrow> Message list \<Rightarrow> event list \<times> 'w" where
  "write_worker W w ch =
     (case write_loop W w ch of (evs, w') \<Rightarrow> (evs @ [CloseErrCh], w'))"

text \<open>
  The loop of \<^verbatim>\<open>read\<close>, with the one decoder made before it:
  \<^verbatim>\<open>
  for err == nil {
      var msg Message
      if err = decoder.Decode(&msg); err == nil {
          ch <- msg
      } else {
          if err != io.EOF {
              errCh <- err
          }
      }
  }
  \<close>
  The result holds the decoder as the loop leaves it.
\<close>

function read_loop :: "Decoder \<Rightarrow> event list \<times> Decoder" where
  "read_loop decoder =
     (case Decode decoder of
        (Inr msg, decoder') \<Rightarrow>
          (case read_loop decoder' of (evs, decoder'') \<Rightarrow> (SendMsg msg # evs, decoder''))
      | (Inl err, decoder') \<Rightarrow>
          (if err \<noteq> EOF then [SendErr err] else [], decoder'))"
  by pat_completeness auto
termination
  by (relation "measure (\<lambda>decoder. length (dec_r decoder))")
     (auto simp: Decode_def dest: Decode_loop_shorter[OF sym])

declare read_loop.simps [simp del]

text \<open>
  \<^verbatim>\<open>read\<close>: \<^verbatim>\<open>decoder := gob.NewDecoder(r)\<close>, the loop, then \<^verbatim>\<open>close(ch)\<close> and
  \<^verbatim>\<open>close(errCh)\<close>.
\<close>

definition read :: "byte list \<Rightarrow> event list \<times> Decoder" where
  "read r =
     (let decoder = NewDecoder r in
      case read_loop decoder of
        (evs, decoder') \<Rightarrow> (evs @ [CloseMsgCh, CloseErrCh], decoder'))"

text \<open>
  A source holds the records \<open>ms\<close> for a decoder when successive calls of \<^verbatim>\<open>Decode\<close>
  return them one by one; the result is the decoder after the last of them.
\<close>

fun decode_records :: "Decoder \<Rightarrow> Message list \<Rightarrow> Decoder option" where
  "decode_records dec [] = Some dec"
| "decode_records dec (m # ms) =
     (case Decode dec of
        (Inr m', dec') \<Rightarrow> if m' = m then decode_records dec' ms else None
      | (Inl e, dec') \<Rightarrow> None)"

section \<open>Round trip of the codec\<close>

lemma bytes_string_bytes: "bytes_string (string_bytes s) = s"
  by (induction s) (simp_all add: string_bytes_def bytes_string_def unat_of_nat)

lemma length_string_bytes [simp]: "length (string_bytes s) = length s"
  by (simp add: string_bytes_def)

lemma be_val_snoc: "be_val (bs @ [b]) = be_val bs * 256 + unat b"
  by (simp add: be_val_def)

lemma be_bytes_step: "n \<noteq> 0 \<Longrightarrow> be_bytes n = be_bytes (n div 256) @ [of_nat (n mod 256)]"
  by (subst be_bytes.simps) simp

lemma be_val_be_bytes: "be_val (be_bytes n) = n"
proof (induction n rule: be_bytes.induct)
  case (1 n)
  show ?case
  proof (cases "n = 0")
    case True
    then show ?thesis by (simp add: be_bytes.simps be_val_def)
  next
    case False
    with 1 show ?thesis
      by (simp add: be_bytes_step be_val_snoc unat_of_nat)
  qed
qed

lemma length_be_bytes: "n < 256 ^ k \<Longrightarrow> length (be_bytes n) \<le> k"
proof (induction n arbitrary: k rule: be_bytes.induct)
  case (1 n)
  show ?case
  proof (cases "n = 0")
    case True
    then show ?thesis by (simp add: be_bytes.simps)
  next
    case False
    then obtain j where k: "k = Suc j" using 1(2) by (cases k) auto
    have "n div 256 < 256 ^ j" using 1(2) k by (simp add: less_mult_imp_div_less)
    then have "length (be_bytes (n div 256)) \<le> j" using 1(1) False by blast
    then show ?thesis using False k by (simp add: be_bytes_step)
  qed
qed

lemma be_bytes_nonempty: "n \<noteq> 0 \<Longrightarrow> be_bytes n \<noteq> []"
  by (simp add: be_bytes_step)

lemma encodeUint_nonempty: "encodeUint x \<noteq> []"
  by (simp add: encodeUint_def Let_def)

lemma decodeUint_encodeUint:
  assumes "x < 2 ^ 64"
  shows "decodeUint (encodeUint x @ rest) = Inr (x, rest)"
proof (cases "x \<le> 127")
  case True
  then have "(of_nat x :: byte) \<le> 0x7f"
    by (simp add: word_le_nat_alt unat_of_nat)
  then show ?thesis using True
    by (simp add: decodeUint_def encodeUint_def unat_of_nat)
next
  case False
  define bs where "bs = be_bytes x"
  have "x < 256 ^ 8" using assms by simp
  then have len: "length bs \<le> 8" unfolding bs_def by (rule length_be_bytes)
  have ne: "bs \<noteq> []" unfolding bs_def using False by (intro be_bytes_nonempty) simp
  then have pos: "0 < length bs" by simp
  define c :: byte where "c = of_nat (256 - length bs)"
  have u: "unat c = 256 - length bs"
    unfolding c_def using pos by (simp only: unat_of_nat) simp
  have "unat (0x7f :: byte) = 127" by simp
  then have nle: "\<not> c \<le> 0x7f"
    unfolding word_le_nat_alt u using len by simp
  have k: "256 - unat c = length bs" using len u by simp
  have enc: "encodeUint x = c # bs"
    using False by (simp only: encodeUint_def Let_def bs_def c_def if_False)
  have "be_val bs = x" unfolding bs_def by (rule be_val_be_bytes)
  then show ?thesis
    using len nle
    by (simp add: decodeUint_def enc Let_def k uint64Size_def)
qed

lemma decodeInt_encodeInt:
  assumes "- (2 ^ 62) \<le> i" and "i < 2 ^ 62"
  shows "decodeInt (encodeInt i @ rest) = Inr (i, rest)"
proof (cases "i < 0")
  case True
  have "2 * nat (- i - 1) + 1 < (2 ^ 64 :: nat)" using assms True by simp
  then show ?thesis using True
    by (simp add: decodeInt_def encodeInt_def decodeUint_encodeUint)
next
  case False
  have "2 * nat i < (2 ^ 64 :: nat)" using assms False by simp
  then show ?thesis using False
    by (simp add: decodeInt_def encodeInt_def decodeUint_encodeUint)
qed

lemma decodeString_encodeString:
  "length s < 2 ^ 64 \<Longrightarrow> decodeString (encodeString s @ rest) = Inr (s, rest)"
  by (simp add: decodeString_def encodeString_def decodeUint_encodeUint bytes_string_bytes)

lemma decodeElems_encode:
  "\<forall>s \<in> set xs. length s < 2 ^ 64 \<Longrightarrow>
   decodeElems (length xs) (concat (map encodeString xs) @ rest) = Inr (xs, rest)"
  by (induction xs) (simp_all add: decodeString_encodeString)

lemma decodeSlice_encodeSlice:
  "length xs < 2 ^ 64 \<Longrightarrow> \<forall>s \<in> set xs. length s < 2 ^ 64 \<Longrightarrow>
   decodeSlice (encodeSlice xs @ rest) = Inr (xs, rest)"
  by (simp add: decodeSlice_def encodeSlice_def decodeUint_encodeUint decodeElems_encode)

lemma decodeStruct_end: "decodeStruct f m (encodeUint 0 @ rest) = Inr (m, rest)"
  by (subst decodeStruct.simps) (simp add: decodeUint_encodeUint)

lemma length_le_encodeString: "length s \<le> length (encodeString s)"
  by (simp add: encodeString_def)

lemma encodeString_nonempty: "0 < length (encodeString s)"
  by (simp add: encodeString_def encodeUint_nonempty)

lemma length_le_concat_encode: "length xs \<le> length (concat (map encodeString xs))"
proof (induction xs)
  case Nil
  then show ?case by simp
next
  case (Cons s xs)
  have "length (concat (map encodeString (s # xs))) =
        length (encodeString s) + length (concat (map encodeString xs))" by simp
  moreover have "length (s # xs) = Suc (length xs)" by simp
  ultimately show ?case using Cons encodeString_nonempty[of s] by linarith
qed

lemma elem_le_concat_encode: "s \<in> set xs \<Longrightarrow> length s \<le> length (concat (map encodeString xs))"
proof (induction xs)
  case Nil
  then show ?case by simp
next
  case (Cons x xs)
  then show ?case using length_le_encodeString[of s] by auto
qed

lemma fits_Action: "fits m \<Longrightarrow> length (Action m) < 2 ^ 64"
  using length_le_encodeString[of "Action m"]
  by (cases "Action m = []") (auto simp: fits_def valueMessage_def encodeStruct_def)

lemma fits_Args: "fits m \<Longrightarrow> length (Args m) < 2 ^ 64"
  using length_le_concat_encode[of "Args m"]
  by (cases "Args m = []") (auto simp: fits_def valueMessage_def encodeStruct_def encodeSlice_def)

lemma fits_elems: "fits m \<Longrightarrow> s \<in> set (Args m) \<Longrightarrow> length s < 2 ^ 64"
  using elem_le_concat_encode[of s "Args m"]
  by (cases "Args m = []") (auto simp: fits_def valueMessage_def encodeStruct_def encodeSlice_def)

lemma decodeStruct_encodeStruct:
  assumes "fits m"
  shows "decodeStruct (- 1) \<lparr>Action = [], Args = []\<rparr> (encodeStruct m @ rest) = Inr (m, rest)"
proof -
  have a: "length (Action m) < 2 ^ 64" and l: "length (Args m) < 2 ^ 64"
    and e: "\<forall>s \<in> set (Args m). length s < 2 ^ 64"
    using assms fits_Action fits_Args fits_elems by blast+
  show ?thesis
  proof (cases "Action m = []")
    case True
    note A = this
    show ?thesis
    proof (cases "Args m = []")
      case True
      then have "m = \<lparr>Action = [], Args = []\<rparr>" using A by simp
      then show ?thesis using A True by (simp add: encodeStruct_def decodeStruct_end)
    next
      case False
      have "m = \<lparr>Action = [], Args = Args m\<rparr>" using A by simp
      then have m: "\<lparr>Action = [], Args = Args m\<rparr> = m" by simp
      show ?thesis using A False
        apply (simp add: encodeStruct_def)
        apply (subst decodeStruct.simps)
        apply (simp add: decodeUint_encodeUint decodeSlice_encodeSlice[OF l e] decodeStruct_end m)
        done
    qed
  next
    case False
    note A = this
    show ?thesis
    proof (cases "Args m = []")
      case True
      then have "m = \<lparr>Action = Action m, Args = []\<rparr>" by simp
      then have m: "\<lparr>Action = Action m, Args = []\<rparr> = m" by simp
      show ?thesis using A True
        apply (simp add: encodeStruct_def)
        apply (subst decodeStruct.simps)
        apply (simp add: decodeUint_encodeUint decodeString_encodeString[OF a] decodeStruct_end m)
        done
    next
      case False
      show ?thesis using A False
        apply (simp add: encodeStruct_def)
        apply (subst decodeStruct.simps)
        apply (simp add: decodeUint_encodeUint decodeString_encodeString[OF a])
        apply (subst decodeStruct.simps)
        apply (simp add: decodeUint_encodeUint decodeSlice_encodeSlice[OF l e] decodeStruct_end)
        done
    qed
  qed
qed

lemma recvMessage_frame:
  "length p < 2 ^ 64 \<Longrightarrow> recvMessage (frame p @ rest) = Inr (p, rest)"
  by (simp add: recvMessage_def frame_def decodeUint_encodeUint)

lemma encodeUint_small: "x \<le> 127 \<Longrightarrow> encodeUint x = [of_nat x]"
  by (simp add: encodeUint_def)

lemma length_messageWire: "length messageWire = 40"
  by (simp add: messageWire_def commonType_def fieldType_def encodeString_def encodeUint_small
      encodeInt_def MessageId_def StringSliceId_def tString_def encodeUint_def be_bytes.simps)

lemma length_sliceWire: "length sliceWire = 20"
  by (simp add: sliceWire_def commonType_def encodeString_def
      encodeInt_def StringSliceId_def tString_def encodeUint_def be_bytes.simps)

section \<open>One encoder call, one decoder call\<close>

lemma ids_distinct: "StringSliceId \<noteq> MessageId"
  by (simp add: StringSliceId_def MessageId_def)

lemma Encode_fresh_buffer:
  "Encode buffer_Write (NewEncoder b) m =
     (None, \<lparr>enc_w = b @ typeDefinitions @ frame (valueMessage m),
             sent = [StringSliceId, MessageId], enc_err = None\<rparr>)"
  by (simp add: Encode_def NewEncoder_def sendType_def writeMessage_def buffer_Write_def
      typeDefinitions_def ids_distinct Let_def)

lemma write_loop_buffer:
  "write_loop buffer_Write b ms =
     (map Recv ms, b @ concat (map (\<lambda>m. typeDefinitions @ frame (valueMessage m)) ms))"
  by (induction ms arbitrary: b) (simp_all add: Encode_fresh_buffer)

text \<open>
  An encoder that has sent the type definitions sends only the value: two messages through
  one encoder are the definitions once, then the two values.
\<close>

lemma Encode_again_buffer:
  "sent enc = [StringSliceId, MessageId] \<Longrightarrow>
   Encode buffer_Write enc m =
     (None, enc\<lparr>enc_w := enc_w enc @ frame (valueMessage m), enc_err := None\<rparr>)"
  by (simp add: Encode_def sendType_def writeMessage_def buffer_Write_def Let_def)

lemma one_encoder_two_messages:
  "enc_w (snd (Encode buffer_Write (snd (Encode buffer_Write (NewEncoder []) m1)) m2)) =
     typeDefinitions @ frame (valueMessage m1) @ frame (valueMessage m2)"
  by (simp add: Encode_fresh_buffer Encode_again_buffer)

lemma length_encodeInt_neg_Message: "length (encodeInt (- MessageId)) = 2"
  by (simp add: encodeInt_def encodeUint_def MessageId_def be_bytes.simps)

lemma length_encodeInt_neg_Slice: "length (encodeInt (- StringSliceId)) = 2"
  by (simp add: encodeInt_def encodeUint_def StringSliceId_def be_bytes.simps)

lemma recv_type_Message:
  "recvMessage (frame (typeMessage MessageId messageWire) @ rest) =
     Inr (typeMessage MessageId messageWire, rest)"
  by (rule recvMessage_frame)
     (simp add: typeMessage_def length_encodeInt_neg_Message length_messageWire)

lemma recv_type_Slice:
  "recvMessage (frame (typeMessage StringSliceId sliceWire) @ rest) =
     Inr (typeMessage StringSliceId sliceWire, rest)"
  by (rule recvMessage_frame)
     (simp add: typeMessage_def length_encodeInt_neg_Slice length_sliceWire)

lemma decodeInt_typeMessage_Message:
  "decodeInt (typeMessage MessageId wire) = Inr (- MessageId, wire)"
  unfolding typeMessage_def by (rule decodeInt_encodeInt) (simp_all add: MessageId_def)

lemma decodeInt_typeMessage_Slice:
  "decodeInt (typeMessage StringSliceId wire) = Inr (- StringSliceId, wire)"
  unfolding typeMessage_def by (rule decodeInt_encodeInt) (simp_all add: StringSliceId_def)

lemma decodeInt_valueMessage:
  "decodeInt (valueMessage m) = Inr (MessageId, encodeStruct m)"
  unfolding valueMessage_def by (rule decodeInt_encodeInt) (simp_all add: MessageId_def)

lemma decodeValue_known:
  "fits m \<Longrightarrow> decodeValue knownTypes MessageId (encodeStruct m) = Inr m"
  using decodeStruct_encodeStruct[of m "[]"]
  by (simp add: decodeValue_def knownTypes_def ids_distinct ids_distinct[symmetric])

lemma Decode_EOF: "dec_r dec = [] \<Longrightarrow> Decode dec = (Inl EOF, dec)"
  unfolding Decode_def
  by (subst Decode_loop.simps) (simp add: recvMessage_def decodeUint_def)

lemma Decode_loop_value:
  assumes "fits m" and "wireType dec = knownTypes"
    and "dec_r dec = frame (valueMessage m) @ rest"
  shows "Decode_loop f dec = (Inr m, dec\<lparr>dec_r := rest\<rparr>)"
proof -
  have "recvMessage (dec_r dec) = Inr (valueMessage m, rest)"
    using assms(1,3) by (simp add: recvMessage_frame fits_def)
  then show ?thesis
    using assms(1,2)
    by (subst Decode_loop.simps)
       (simp add: decodeInt_valueMessage MessageId_def[symmetric] decodeValue_known,
        simp add: MessageId_def)
qed

lemma Decode_value:
  "fits m \<Longrightarrow> wireType dec = knownTypes \<Longrightarrow> dec_r dec = frame (valueMessage m) @ rest \<Longrightarrow>
   Decode dec = (Inr m, dec\<lparr>dec_r := rest\<rparr>)"
  unfolding Decode_def by (rule Decode_loop_value)

lemma Decode_first_record:
  assumes "fits m"
  shows "Decode (NewDecoder (typeDefinitions @ frame (valueMessage m) @ rest)) =
         (Inr m, \<lparr>dec_r = rest, wireType = knownTypes\<rparr>)"
proof -
  let ?d2 = "\<lparr>dec_r = frame (valueMessage m) @ rest, wireType = knownTypes\<rparr>"
  let ?d1 = "\<lparr>dec_r = frame (typeMessage StringSliceId sliceWire) @ frame (valueMessage m) @ rest,
               wireType = [(MessageId, messageWire)]\<rparr>"
  have v: "Decode_loop False ?d2 = (Inr m, ?d2\<lparr>dec_r := rest\<rparr>)"
    using assms by (intro Decode_loop_value) simp_all
  have s: "Decode_loop False ?d1 = Decode_loop False ?d2"
    by (subst Decode_loop.simps)
       (simp add: recv_type_Slice decodeInt_typeMessage_Slice knownTypes_def,
        simp add: StringSliceId_def MessageId_def firstUserId_def)
  have "Decode_loop True (NewDecoder (typeDefinitions @ frame (valueMessage m) @ rest)) =
        Decode_loop False ?d1"
    by (subst Decode_loop.simps)
       (simp add: NewDecoder_def typeDefinitions_def recv_type_Message
          decodeInt_typeMessage_Message,
        simp add: MessageId_def firstUserId_def)
  with s v show ?thesis by (simp add: Decode_def)
qed

lemma Decode_duplicate:
  assumes "map_of (wireType dec) MessageId \<noteq> None"
    and "dec_r dec = typeDefinitions @ rest"
  shows "Decode dec =
         (Inl (GobError ''gob: duplicate type received''),
          dec\<lparr>dec_r := frame (typeMessage StringSliceId sliceWire) @ rest\<rparr>)"
proof -
  have "recvMessage (dec_r dec) =
        Inr (typeMessage MessageId messageWire, frame (typeMessage StringSliceId sliceWire) @ rest)"
    using assms(2) by (simp add: typeDefinitions_def recv_type_Message)
  then show ?thesis
    using assms(1) unfolding Decode_def
    by (subst Decode_loop.simps)
       (simp add: decodeInt_typeMessage_Message, simp add: MessageId_def)
qed

section \<open>The loops\<close>

lemma write_loop_append:
  "write_loop W w (xs @ ys) =
     (case write_loop W w xs of
        (evs, w') \<Rightarrow> (case write_loop W w' ys of (evs', w'') \<Rightarrow> (evs @ evs', w'')))"
  by (induction xs arbitrary: w) (auto simp: Let_def split: prod.splits)


lemma delivered_append: "delivered (xs @ ys) = delivered xs @ delivered ys"
  by (induction xs rule: delivered.induct) simp_all

lemma errors_append: "errors (xs @ ys) = errors xs @ errors ys"
  by (induction xs rule: errors.induct) simp_all

lemma delivered_SendMsg: "delivered (map SendMsg ms) = ms"
  by (induction ms) simp_all

lemma errors_SendMsg: "errors (map SendMsg ms) = []"
  by (induction ms) simp_all




lemma read_loop_records:
  "decode_records dec ms = Some d \<Longrightarrow> Decode d = (Inl e, d') \<Longrightarrow>
   read_loop dec = (map SendMsg ms @ (if e \<noteq> EOF then [SendErr e] else []), d')"
proof (induction ms arbitrary: dec)
  case Nil
  then show ?case by (subst read_loop.simps) simp
next
  case (Cons m ms)
  from Cons.prems(1) obtain dec1 where d: "Decode dec = (Inr m, dec1)"
    and r: "decode_records dec1 ms = Some d"
    by (auto split: prod.splits sum.splits if_splits)
  from Cons.IH[OF r Cons.prems(2)] d show ?case
    by (subst read_loop.simps) simp
qed

lemma read_loop_shape:
  "\<exists>ms e d d'. decode_records dec ms = Some d \<and> Decode d = (Inl e, d') \<and>
     read_loop dec = (map SendMsg ms @ (if e \<noteq> EOF then [SendErr e] else []), d')"
proof (induction dec rule: read_loop.induct)
  case (1 decoder)
  obtain res decoder' where D: "Decode decoder = (res, decoder')" by (cases "Decode decoder")
  show ?case
  proof (cases res)
    case (Inl err)
    have "decode_records decoder [] = Some decoder" by simp
    moreover have "Decode decoder = (Inl err, decoder')" using D Inl by simp
    moreover have "read_loop decoder =
        (map SendMsg [] @ (if err \<noteq> EOF then [SendErr err] else []), decoder')"
      using D Inl by (subst read_loop.simps) simp
    ultimately show ?thesis by blast
  next
    case (Inr msg)
    with D have D': "Decode decoder = (Inr msg, decoder')" by simp
    from "1.IH"[OF D'[symmetric] refl] obtain ms e d d' where
      r: "decode_records decoder' ms = Some d" and f: "Decode d = (Inl e, d')"
      and l: "read_loop decoder' = (map SendMsg ms @ (if e \<noteq> EOF then [SendErr e] else []), d')"
      by blast
    have "decode_records decoder (msg # ms) = Some d" using D' r by simp
    moreover have "read_loop decoder =
        (map SendMsg (msg # ms) @ (if e \<noteq> EOF then [SendErr e] else []), d')"
      using D' l by (subst read_loop.simps) simp
    ultimately show ?thesis using f by blast
  qed
qed


section \<open>Round trip\<close>

lemma write_worker_buffer:
  "write_worker buffer_Write b ms =
     (map Recv ms @ [CloseErrCh],
      b @ concat (map (\<lambda>m. typeDefinitions @ frame (valueMessage m)) ms))"
  by (simp add: write_worker_def write_loop_buffer)

lemma fits_example1: "fits \<lparr>Action = ''regenerate apprc'', Args = [''app1'']\<rparr>"
  by (simp add: fits_def valueMessage_def encodeStruct_def encodeString_def encodeSlice_def
      encodeUint_def encodeInt_def MessageId_def be_bytes.simps)

lemma fits_example2: "fits \<lparr>Action = ''restart'', Args = []\<rparr>"
  by (simp add: fits_def valueMessage_def encodeStruct_def encodeString_def encodeSlice_def
      encodeUint_def encodeInt_def MessageId_def be_bytes.simps)

text \<open>
  C1: a message that the encoding worker writes into an empty byte buffer comes out of the
  decoding worker that reads this buffer, with the same action and arguments (empty
  arguments included), and neither worker reports an error.
\<close>

theorem round_trip:
  assumes "fits m"
  shows "errors (fst (write_worker buffer_Write [] [m])) = [] \<and>
         fst (read (snd (write_worker buffer_Write [] [m]))) = [SendMsg m, CloseMsgCh, CloseErrCh]"
proof -
  let ?d = "\<lparr>dec_r = [], wireType = knownTypes\<rparr>"
  have w: "write_worker buffer_Write [] [m] =
           ([Recv m, CloseErrCh], typeDefinitions @ frame (valueMessage m) @ [])"
    by (simp add: write_worker_buffer)
  have "Decode (NewDecoder (typeDefinitions @ frame (valueMessage m) @ [])) = (Inr m, ?d)"
    using assms by (rule Decode_first_record)
  then have r: "decode_records (NewDecoder (typeDefinitions @ frame (valueMessage m) @ [])) [m]
                = Some ?d"
    by simp
  have e: "Decode ?d = (Inl EOF, ?d)" by (rule Decode_EOF) simp
  have "read_loop (NewDecoder (typeDefinitions @ frame (valueMessage m) @ [])) = ([SendMsg m], ?d)"
    using read_loop_records[OF r e] by simp
  then show ?thesis
    by (simp add: w read_def del: append_Nil2)
qed

theorem round_trip_witness:
  "fits \<lparr>Action = ''regenerate apprc'', Args = [''app1'']\<rparr> \<and>
   fst (read (snd (write_worker buffer_Write []
     [\<lparr>Action = ''regenerate apprc'', Args = [''app1'']\<rparr>]))) =
   [SendMsg \<lparr>Action = ''regenerate apprc'', Args = [''app1'']\<rparr>, CloseMsgCh, CloseErrCh]"
  using round_trip[OF fits_example1] fits_example1 by simp

section \<open>Several messages\<close>

text \<open>
  Two or more messages written by the encoding worker into an empty buffer: each message
  has its own encoder, so the type definitions are in the buffer before every value. The
  single decoder of the decoding worker delivers the first message, refuses the second
  definition of the type and stops; no later message is delivered.
\<close>

lemma fresh_encoders_one_decoder:
  assumes "fits m"
  shows "fst (read (snd (write_worker buffer_Write [] (m # m' # ms)))) =
         [SendMsg m, SendErr (GobError ''gob: duplicate type received''), CloseMsgCh, CloseErrCh]"
proof -
  let ?rec = "\<lambda>m. typeDefinitions @ frame (valueMessage m)"
  let ?rest = "frame (valueMessage m') @ concat (map ?rec ms)"
  let ?r = "typeDefinitions @ frame (valueMessage m) @ typeDefinitions @ ?rest"
  let ?d = "\<lparr>dec_r = typeDefinitions @ ?rest, wireType = knownTypes\<rparr>"
  have w: "snd (write_worker buffer_Write [] (m # m' # ms)) = ?r"
    by (simp add: write_worker_buffer)
  have "Decode (NewDecoder ?r) = (Inr m, ?d)"
    using assms by (rule Decode_first_record)
  then have r: "decode_records (NewDecoder ?r) [m] = Some ?d" by simp
  have "map_of (wireType ?d) MessageId \<noteq> None"
    by (simp add: knownTypes_def)
  then have e: "Decode ?d = (Inl (GobError ''gob: duplicate type received''),
      ?d\<lparr>dec_r := frame (typeMessage StringSliceId sliceWire) @ ?rest\<rparr>)"
    by (rule Decode_duplicate) simp
  show ?thesis
    unfolding w using read_loop_records[OF r e] by (simp add: read_def)
qed

text \<open>
  C2 (the code departs from the claim): the two messages of the example scenario, sent
  through the encoding worker into an empty buffer that the decoding worker then reads.
  The decoding worker delivers one message and one error, not two messages.
\<close>

theorem two_messages_duplicate_type:
  "fst (read (snd (write_worker buffer_Write []
     [\<lparr>Action = ''regenerate apprc'', Args = [''app1'']\<rparr>, \<lparr>Action = ''restart'', Args = []\<rparr>]))) =
   [SendMsg \<lparr>Action = ''regenerate apprc'', Args = [''app1'']\<rparr>,
    SendErr (GobError ''gob: duplicate type received''), CloseMsgCh, CloseErrCh]"
  using fits_example1 by (rule fresh_encoders_one_decoder)

text \<open>
  The same two messages through one encoder are the type definitions once and the two
  values (\<open>one_encoder_two_messages\<close>); the decoding worker delivers both from such a
  stream, as the section on the decoding worker shows.
\<close>

section \<open>The encoding worker\<close>


text \<open>
  C10: every message gets a new encoder, which knows nothing of the messages before it: the
  bytes the worker writes into a buffer for a sequence of messages are the bytes it writes
  for each message alone, one after the other, and the bytes for one message are the two type
  definitions followed by the value.
\<close>

theorem fresh_encoder_per_message:
  "snd (write_worker buffer_Write [] ms) =
     concat (map (\<lambda>m. snd (write_worker buffer_Write [] [m])) ms) \<and>
   snd (write_worker buffer_Write [] [m]) = typeDefinitions @ frame (valueMessage m)"
proof -
  have "\<And>m. snd (write_worker buffer_Write [] [m]) = typeDefinitions @ frame (valueMessage m)"
    by (simp add: write_worker_buffer)
  then show ?thesis by (simp add: write_worker_buffer)
qed

section \<open>The decoding worker\<close>

text \<open>
  C4: when the source holds exactly the records \<open>ms\<close> and then ends cleanly, the decoding
  worker delivers \<open>ms\<close>, sends no error and closes both channels.
\<close>

theorem clean_end_of_stream:
  assumes "decode_records (NewDecoder r) ms = Some d" and "fst (Decode d) = Inl EOF"
  shows "fst (read r) = map SendMsg ms @ [CloseMsgCh, CloseErrCh] \<and>
         delivered (fst (read r)) = ms \<and> errors (fst (read r)) = []"
proof -
  obtain d' where "Decode d = (Inl EOF, d')" using assms(2) by (cases "Decode d") simp
  from read_loop_records[OF assms(1) this]
  have "read_loop (NewDecoder r) = (map SendMsg ms, d')" by simp
  then show ?thesis
    by (simp add: read_def errors_append errors_SendMsg delivered_append delivered_SendMsg)
qed

theorem clean_end_of_stream_witness:
  "decode_records
     (NewDecoder (typeDefinitions @ frame (valueMessage \<lparr>Action = ''regenerate apprc'', Args = [''app1'']\<rparr>) @
        frame (valueMessage \<lparr>Action = ''restart'', Args = []\<rparr>)))
     [\<lparr>Action = ''regenerate apprc'', Args = [''app1'']\<rparr>, \<lparr>Action = ''restart'', Args = []\<rparr>] =
     Some \<lparr>dec_r = [], wireType = knownTypes\<rparr> \<and>
   fst (Decode \<lparr>dec_r = [], wireType = knownTypes\<rparr>) = Inl EOF \<and>
   fst (read (typeDefinitions @ frame (valueMessage \<lparr>Action = ''regenerate apprc'', Args = [''app1'']\<rparr>) @
        frame (valueMessage \<lparr>Action = ''restart'', Args = []\<rparr>))) =
     [SendMsg \<lparr>Action = ''regenerate apprc'', Args = [''app1'']\<rparr>,
      SendMsg \<lparr>Action = ''restart'', Args = []\<rparr>, CloseMsgCh, CloseErrCh]"
proof -
  let ?m1 = "\<lparr>Action = ''regenerate apprc'', Args = [''app1'']\<rparr>"
  let ?m2 = "\<lparr>Action = ''restart'', Args = []\<rparr>"
  let ?r = "typeDefinitions @ frame (valueMessage ?m1) @ frame (valueMessage ?m2)"
  let ?d1 = "\<lparr>dec_r = frame (valueMessage ?m2), wireType = knownTypes\<rparr>"
  let ?d2 = "\<lparr>dec_r = [], wireType = knownTypes\<rparr>"
  have a: "Decode (NewDecoder ?r) = (Inr ?m1, ?d1)"
    using fits_example1 by (rule Decode_first_record)
  have b: "Decode ?d1 = (Inr ?m2, ?d1\<lparr>dec_r := []\<rparr>)"
    using fits_example2 by (rule Decode_value) simp_all
  have r: "decode_records (NewDecoder ?r) [?m1, ?m2] = Some ?d2"
    using a b by simp
  have e: "fst (Decode ?d2) = Inl EOF" by (simp add: Decode_EOF)
  show ?thesis using clean_end_of_stream[OF r e] r e by simp
qed




text \<open>
  C9: for every source, the decoding worker delivers the records it can decode, then meets
  one failing call of \<^verbatim>\<open>Decode\<close>, sends its error unless it is the end of the stream,
  closes both channels and leaves the decoder as that call returned it. So it sends at most
  one error.
\<close>

theorem read_sends_at_most_one_error:
  "\<exists>ms e d. decode_records (NewDecoder r) ms = Some d \<and> fst (Decode d) = Inl e \<and>
     read r = (map SendMsg ms @ (if e = EOF then [] else [SendErr e]) @ [CloseMsgCh, CloseErrCh],
               snd (Decode d)) \<and>
     length (errors (fst (read r))) \<le> 1"
proof -
  obtain ms e d d' where r: "decode_records (NewDecoder r) ms = Some d"
    and f: "Decode d = (Inl e, d')"
    and l: "read_loop (NewDecoder r) = (map SendMsg ms @ (if e \<noteq> EOF then [SendErr e] else []), d')"
    using read_loop_shape[of "NewDecoder r"] by blast
  have a: "fst (Decode d) = Inl e" using f by simp
  have b: "read r = (map SendMsg ms @ (if e = EOF then [] else [SendErr e]) @ [CloseMsgCh, CloseErrCh],
                  snd (Decode d))"
    using l f by (simp add: read_def)
  have c: "length (errors (fst (read r))) \<le> 1"
    unfolding b by (simp add: errors_append errors_SendMsg)
  from r a b c show ?thesis by blast
qed


section \<open>A sink that fails once\<close>

lemma Encode_failing_clear:
  assumes "k < n \<or> n + 3 \<le> k"
  shows "Encode (failing_Write k e) (NewEncoder (n, out)) m =
     (None, \<lparr>enc_w = (n + 3, out @ typeDefinitions @ frame (valueMessage m)),
             sent = [StringSliceId, MessageId], enc_err = None\<rparr>)"
  using assms
  by (auto simp: Encode_def NewEncoder_def sendType_def writeMessage_def failing_Write_def
      typeDefinitions_def ids_distinct Let_def)

lemma Encode_failing_at:
  assumes "n \<le> k" and "k < n + 3"
  shows "fst (Encode (failing_Write k e) (NewEncoder (n, out)) m) = Some e \<and>
         enc_w (snd (Encode (failing_Write k e) (NewEncoder (n, out)) m)) =
           (Suc k, out @ concat (take (k - n)
              [frame (typeMessage MessageId messageWire),
               frame (typeMessage StringSliceId sliceWire),
               frame (valueMessage m)]))"
proof -
  from assms consider "k = n" | "k = Suc n" | "k = Suc (Suc n)" by linarith
  then show ?thesis
  proof cases
    case 1
    then show ?thesis
      by (simp add: Encode_def NewEncoder_def sendType_def writeMessage_def failing_Write_def
          ids_distinct Let_def)
  next
    case 2
    then show ?thesis
      by (simp add: Encode_def NewEncoder_def sendType_def writeMessage_def failing_Write_def
          ids_distinct Let_def)
  next
    case 3
    then show ?thesis
      by (simp add: Encode_def NewEncoder_def sendType_def writeMessage_def failing_Write_def
          ids_distinct Let_def numeral_2_eq_2)
  qed
qed

lemma write_loop_failing_clear:
  "k < n \<or> n + 3 * length ms \<le> k \<Longrightarrow>
   write_loop (failing_Write k e) (n, out) ms =
     (map Recv ms,
      (n + 3 * length ms, out @ concat (map (\<lambda>m. typeDefinitions @ frame (valueMessage m)) ms)))"
proof (induction ms arbitrary: n out)
  case Nil
  then show ?case by simp
next
  case (Cons m ms)
  from Cons.prems have c: "k < n \<or> n + 3 \<le> k" by auto
  from Cons.prems have "k < n + 3 \<or> (n + 3) + 3 * length ms \<le> k" by auto
  from Cons.IH[OF this] show ?case
    by (simp add: Encode_failing_clear[OF c])
qed

text \<open>
  C6: the sink fails on exactly one call of \<^verbatim>\<open>Write\<close>, and that call belongs to the
  message \<open>m\<close> (each message before it took three calls). The encoding worker sends
  exactly one error, the one of the sink, right after it received \<open>m\<close>; it goes on to
  receive every later message, and the sink holds the complete records of all the messages
  but \<open>m\<close>, of which it holds what was written before the failing call.
\<close>

theorem one_failing_write:
  assumes "3 * length pre \<le> k" and "k < 3 * length pre + 3"
  shows "write_worker (failing_Write k e) (0, []) (pre @ m # post) =
     (map Recv pre @ [Recv m, SendErr e] @ map Recv post @ [CloseErrCh],
      (Suc k + 3 * length post,
       concat (map (\<lambda>m. typeDefinitions @ frame (valueMessage m)) pre) @
       concat (take (k - 3 * length pre)
         [frame (typeMessage MessageId messageWire),
          frame (typeMessage StringSliceId sliceWire),
          frame (valueMessage m)]) @
       concat (map (\<lambda>m. typeDefinitions @ frame (valueMessage m)) post)))"
proof -
  let ?W = "failing_Write k e"
  let ?rec = "\<lambda>m. typeDefinitions @ frame (valueMessage m)"
  let ?part = "concat (take (k - 3 * length pre)
         [frame (typeMessage MessageId messageWire),
          frame (typeMessage StringSliceId sliceWire),
          frame (valueMessage m)])"
  have p: "write_loop ?W (0, []) pre = (map Recv pre, (3 * length pre, concat (map ?rec pre)))"
    using write_loop_failing_clear[of k 0 pre e "[]"] assms(1) by simp
  obtain err enc where E: "Encode ?W (NewEncoder (3 * length pre, concat (map ?rec pre))) m = (err, enc)"
    by (cases "Encode ?W (NewEncoder (3 * length pre, concat (map ?rec pre))) m")
  from Encode_failing_at[OF assms, of e "concat (map ?rec pre)" m] E
  have err: "err = Some e" and w: "enc_w enc = (Suc k, concat (map ?rec pre) @ ?part)"
    by simp_all
  have q: "write_loop ?W (Suc k, concat (map ?rec pre) @ ?part) post =
      (map Recv post, (Suc k + 3 * length post, (concat (map ?rec pre) @ ?part) @ concat (map ?rec post)))"
    by (rule write_loop_failing_clear) simp
  have "write_loop ?W (3 * length pre, concat (map ?rec pre)) (m # post) =
      (Recv m # SendErr e # map Recv post,
       (Suc k + 3 * length post, (concat (map ?rec pre) @ ?part) @ concat (map ?rec post)))"
    using E err w q by simp
  then show ?thesis
    by (simp add: write_worker_def write_loop_append p)
qed

theorem one_failing_write_witness:
  "3 * length [\<lparr>Action = ''a'', Args = []\<rparr>] \<le> (3::nat) \<and>
   (3::nat) < 3 * length [\<lparr>Action = ''a'', Args = []\<rparr>] + 3 \<and>
   fst (write_worker (failing_Write 3 (WriteError ''broken pipe'')) (0, [])
     [\<lparr>Action = ''a'', Args = []\<rparr>, \<lparr>Action = ''b'', Args = []\<rparr>, \<lparr>Action = ''c'', Args = []\<rparr>]) =
   [Recv \<lparr>Action = ''a'', Args = []\<rparr>, Recv \<lparr>Action = ''b'', Args = []\<rparr>,
    SendErr (WriteError ''broken pipe''), Recv \<lparr>Action = ''c'', Args = []\<rparr>, CloseErrCh] \<and>
   snd (snd (write_worker (failing_Write 3 (WriteError ''broken pipe'')) (0, [])
     [\<lparr>Action = ''a'', Args = []\<rparr>, \<lparr>Action = ''b'', Args = []\<rparr>, \<lparr>Action = ''c'', Args = []\<rparr>])) =
   (typeDefinitions @ frame (valueMessage \<lparr>Action = ''a'', Args = []\<rparr>)) @
   (typeDefinitions @ frame (valueMessage \<lparr>Action = ''c'', Args = []\<rparr>))"
proof -
  have a: "3 * length [\<lparr>Action = ''a'', Args = []\<rparr>] \<le> (3::nat)" by simp
  have b: "(3::nat) < 3 * length [\<lparr>Action = ''a'', Args = []\<rparr>] + 3" by simp
  show ?thesis
    using one_failing_write[OF a b, of "WriteError ''broken pipe''" "\<lparr>Action = ''b'', Args = []\<rparr>"
        "[\<lparr>Action = ''c'', Args = []\<rparr>]"]
    by simp
qed

section \<open>Capacity of the channels\<close>

text \<open>
  C7: both constructors return a message channel and an error channel of capacity 32.
\<close>

theorem constructors_capacity_32:
  "cap (fst (ChannelFromWriter w)) = 32 \<and> cap (fst (snd (ChannelFromWriter w))) = 32 \<and>
   cap (fst (ChannelFromReader r)) = 32 \<and> cap (fst (snd (ChannelFromReader r))) = 32"
  by (simp add: ChannelFromWriter_def ChannelFromReader_def make_chan_def ChanSize_def)

end
